theory Spec2Isabelle
  imports Main
begin

section \<open>The Chandy-Lamport simulation: data model\<close>

text \<open>
  The source (\<^verbatim>\<open>src/controller.ts\<close>, which also holds the module \<^verbatim>\<open>virtual-peer\<close>)
  simulates the snapshot algorithm of Chandy and Lamport over peers that are joined by
  delayed channels. Every peer is an object; another peer is named by its reference and
  two references are compared with \<^verbatim>\<open>===\<close>. A reference is modelled as a natural number.
\<close>

type_synonym peer_ref = nat

subsection \<open>Numbers\<close>

text \<open>
  A JavaScript \<^verbatim>\<open>number\<close> is an IEEE double. The interface takes integers: the amount of
  a payment, the id of a snapshot and the initial resources of a peer are finite doubles
  with an integer value, and an \<open>int\<close> stands for the double of that value (the two zeros
  are not told apart). The source computes with \<^verbatim>\<open>+=\<close> and \<^verbatim>\<open>-=\<close> only. On doubles these
  give the exact sum or difference rounded to the nearest double, to the one with the even
  mantissa when two are equally near, and an infinity when the result is out of range.
  So a value that the source computes is an integer, an infinity or, in a vector, \<^verbatim>\<open>NaN\<close>.

  \<open>bit_length n\<close> is the number of binary digits of \<open>n\<close>. \<open>round_double z\<close> is the double
  nearest to the integer \<open>z\<close>: integers up to \<open>2^53\<close> in magnitude are doubles; a larger
  one keeps its 53 leading binary digits, rounded, and is infinite from \<open>2^1024\<close> on.
\<close>

datatype number = Num int | PosInf | NegInf | NaN

fun bit_length :: "nat \<Rightarrow> nat" where
  "bit_length n = (if n = 0 then 0 else Suc (bit_length (n div 2)))"

definition round_double :: "int \<Rightarrow> number" where
  "round_double z =
     (let a = nat \<bar>z\<bar> in
      if a \<le> 2 ^ 53 then Num z
      else
        (let k = bit_length a - 53;
             q = a div 2 ^ k;
             r = a mod 2 ^ k;
             q' = (if 2 ^ (k - 1) < r \<or> (r = 2 ^ (k - 1) \<and> odd q) then q + 1 else q)
         in if 2 ^ 1024 \<le> q' * 2 ^ k then (if z < 0 then NegInf else PosInf)
            else Num (sgn z * int (q' * 2 ^ k))))"

text \<open>\<^verbatim>\<open>x + v\<close> and \<^verbatim>\<open>x - v\<close> for a computed value \<open>x\<close> and an amount \<open>v\<close>.\<close>

fun number_plus :: "number \<Rightarrow> int \<Rightarrow> number" where
  "number_plus (Num x) v = round_double (x + v)"
| "number_plus PosInf v = PosInf"
| "number_plus NegInf v = NegInf"
| "number_plus NaN v = NaN"

fun number_minus :: "number \<Rightarrow> int \<Rightarrow> number" where
  "number_minus (Num x) v = round_double (x - v)"
| "number_minus PosInf v = PosInf"
| "number_minus NegInf v = NegInf"
| "number_minus NaN v = NaN"

subsection \<open>JavaScript arrays\<close>

text \<open>
  The two vectors of a snapshot task are JavaScript arrays that the source reads and
  writes at the index returned by \<^verbatim>\<open>indexOf\<close>. That index is \<^verbatim>\<open>-1\<close> when the sender is
  not the remote end of any connection, and it may lie beyond the end of a vector that
  was created before a later \<^verbatim>\<open>connect\<close>. JavaScript does not fail there:
  \<^item> a read outside the array, or of a hole, yields \<^verbatim>\<open>undefined\<close>;
  \<^item> a write at \<^verbatim>\<open>-1\<close> stores a property named \<^verbatim>\<open>"-1"\<close> beside the elements;
  \<^item> a write beyond the end extends the array, leaving holes in between.

  So an array is the list of its slots (\<open>None\<close> is a hole) and the value of the
  property \<^verbatim>\<open>"-1"\<close> (\<open>None\<close> when it was never written). An index is a \<open>nat option\<close>,
  where \<open>None\<close> stands for \<^verbatim>\<open>-1\<close>.
\<close>

record 'a js_array =
  elems :: "'a option list"
  minus1 :: "'a option"

text \<open>A dense array, as \<^verbatim>\<open>map\<close> and \<^verbatim>\<open>concat\<close> build it.\<close>

definition mk_array :: "'a list \<Rightarrow> 'a js_array" where
  "mk_array xs = \<lparr>elems = map Some xs, minus1 = None\<rparr>"

text \<open>\<^verbatim>\<open>a[i]\<close>; the result \<open>None\<close> is \<^verbatim>\<open>undefined\<close>.\<close>

fun js_get :: "'a js_array \<Rightarrow> nat option \<Rightarrow> 'a option" where
  "js_get a None = minus1 a"
| "js_get a (Some i) = (if i < length (elems a) then elems a ! i else None)"

text \<open>\<^verbatim>\<open>a[i] = v\<close>.\<close>

fun js_set :: "'a js_array \<Rightarrow> nat option \<Rightarrow> 'a \<Rightarrow> 'a js_array" where
  "js_set a None v = a\<lparr>minus1 := Some v\<rparr>"
| "js_set a (Some i) v =
     (if i < length (elems a) then a\<lparr>elems := (elems a)[i := Some v]\<rparr>
      else a\<lparr>elems := elems a @ replicate (i - length (elems a)) None @ [Some v]\<rparr>)"

text \<open>
  The elements that the iteration methods of an array (\<^verbatim>\<open>filter\<close>, \<^verbatim>\<open>join\<close>) visit:
  the slots that are not holes, in order.
\<close>

definition present :: "'a js_array \<Rightarrow> 'a list" where
  "present a = concat (map (\<lambda>s. case s of None \<Rightarrow> [] | Some v \<Rightarrow> [v]) (elems a))"

text \<open>\<^verbatim>\<open>xs.indexOf(x)\<close>: the first position of \<open>x\<close>, or \<^verbatim>\<open>-1\<close> (here \<open>None\<close>).\<close>

fun indexOf :: "'a list \<Rightarrow> 'a \<Rightarrow> nat option" where
  "indexOf [] x = None"
| "indexOf (y # ys) x = (if y = x then Some 0 else map_option Suc (indexOf ys x))"

text \<open>
  The truth value that \<^verbatim>\<open>!\<close> negates: \<^verbatim>\<open>undefined\<close> counts as false.
\<close>

fun truthy :: "bool option \<Rightarrow> bool" where
  "truthy None = False"
| "truthy (Some b) = b"

text \<open>
  \<open>js_plus x v\<close> is \<^verbatim>\<open>x + v\<close> for the entry \<open>x\<close> read from a resource vector and an amount
  \<open>v\<close>; \<^verbatim>\<open>undefined + v\<close> is \<^verbatim>\<open>NaN\<close>.
\<close>

fun js_plus :: "number option \<Rightarrow> int \<Rightarrow> number" where
  "js_plus (Some x) v = number_plus x v"
| "js_plus None v = NaN"

subsection \<open>Messages, connections, snapshot tasks and peers\<close>

text \<open>
  The classes of the source, field by field. The fields \<^verbatim>\<open>type\<close> and \<^verbatim>\<open>value\<close> of a
  message are \<open>mtype\<close> and \<open>mvalue\<close> here and the \<^verbatim>\<open>id\<close> of a task is \<open>id_task\<close>, since the
  plain names are taken. A connection is held by the peer it starts from, its \<^verbatim>\<open>local\<close>
  end.
\<close>

datatype message_type = Resource | Snapshot

record Message =
  mtype :: message_type
  mvalue :: int

record VirtualConnection =
  local :: peer_ref
  remote :: peer_ref
  delay :: int

record SnapshotTask =
  id_task :: int
  receiveStatus :: "bool js_array"
  capturedResources :: "number js_array"

record VirtualPeer =
  name :: string
  resources :: number
  connections :: "VirtualConnection list"
  snapshotTasks :: "SnapshotTask list"

text \<open>
  What a call does besides changing the peer: \<open>Send k m\<close> is the call \<^verbatim>\<open>k.send(m)\<close>,
  which schedules the delivery of \<open>m\<close> to the remote end of \<open>k\<close> and returns at once;
  \<open>LogCompleted i v\<close> is the log line that reports vector \<open>v\<close> of snapshot \<open>i\<close>;
  \<open>LogInitiated i\<close> is the log line of \<^verbatim>\<open>initiateSnapshot\<close>. The log lines that
  \<^verbatim>\<open>send\<close> itself prints are not modelled.
\<close>

datatype effect =
  Send VirtualConnection Message
| LogCompleted int "number option list"
| LogInitiated int

datatype error = TypeError

section \<open>The peer\<close>

text \<open>
  The task that \<^verbatim>\<open>handleMessage\<close> builds for a snapshot it has not seen: every channel
  listened to, nothing captured on any channel, and the resources of the peer last.
\<close>

definition newSnapshotTask :: "VirtualPeer \<Rightarrow> int \<Rightarrow> SnapshotTask" where
  "newSnapshotTask this v =
     \<lparr>id_task = v,
      receiveStatus = mk_array (map (\<lambda>k. False) (connections this)),
      capturedResources =
        mk_array (map (\<lambda>k. Num 0) (connections this) @ [resources this])\<rparr>"

text \<open>
  \<^verbatim>\<open>snapshot\<close> is a reference to the first task of the list with the id of the message.
  A write through it is a write to that element of the list.
\<close>

fun replaceFirst :: "('a \<Rightarrow> bool) \<Rightarrow> 'a \<Rightarrow> 'a list \<Rightarrow> 'a list" where
  "replaceFirst P y [] = []"
| "replaceFirst P y (x # xs) = (if P x then y # xs else x # replaceFirst P y xs)"

text \<open>The first part of the snapshot branch: look the task up, create and push it if absent.\<close>

definition joinSnapshot :: "VirtualPeer \<Rightarrow> int \<Rightarrow> SnapshotTask \<times> VirtualPeer" where
  "joinSnapshot this v =
     (case find (\<lambda>k. id_task k = v) (snapshotTasks this) of
        Some s \<Rightarrow> (s, this)
      | None \<Rightarrow>
          (newSnapshotTask this v,
           this\<lparr>snapshotTasks := snapshotTasks this @ [newSnapshotTask this v]\<rparr>))"

text \<open>
  \<^verbatim>\<open>this.connections.map(k => k.remote).indexOf(remote)\<close>: the index of the first
  connection whose remote end is the sender. It is \<^verbatim>\<open>-1\<close> (here \<open>None\<close>) when no connection
  leads to the sender, and when there is no sender, since no remote end is \<^verbatim>\<open>undefined\<close>.
\<close>

definition remoteIndexOf :: "VirtualPeer \<Rightarrow> peer_ref option \<Rightarrow> nat option" where
  "remoteIndexOf this sender =
     (case sender of
        None \<Rightarrow> None
      | Some r \<Rightarrow> indexOf (map remote (connections this)) r)"

text \<open>The body of the loop over the tasks in the resource branch.\<close>

definition capture :: "nat option \<Rightarrow> int \<Rightarrow> SnapshotTask \<Rightarrow> SnapshotTask" where
  "capture remoteIndex v task =
     (if \<not> truthy (js_get (receiveStatus task) remoteIndex)
      then task\<lparr>capturedResources :=
             js_set (capturedResources task) remoteIndex
               (js_plus (js_get (capturedResources task) remoteIndex) v)\<rparr>
      else task)"

definition handleMessage ::
  "VirtualPeer \<Rightarrow> Message \<Rightarrow> peer_ref option \<Rightarrow> VirtualPeer \<times> effect list" where
  "handleMessage this message sender =
     (case mtype message of
        Snapshot \<Rightarrow>
          (case joinSnapshot this (mvalue message) of (snapshot, this1) \<Rightarrow>
             (case sender of
                None \<Rightarrow> (this1, map (\<lambda>k. Send k message) (connections this1))
              | Some r \<Rightarrow>
                  (let remoteIndex = remoteIndexOf this1 sender in
                   if \<not> truthy (js_get (receiveStatus snapshot) remoteIndex) then
                     (let snapshot' = snapshot\<lparr>receiveStatus :=
                            js_set (receiveStatus snapshot) remoteIndex True\<rparr>;
                          this2 = this1\<lparr>snapshotTasks :=
                            replaceFirst (\<lambda>k. id_task k = mvalue message) snapshot'
                              (snapshotTasks this1)\<rparr>
                      in if length (filter (\<lambda>k. \<not> k) (present (receiveStatus snapshot'))) = 0
                         then (this2, [LogCompleted (id_task snapshot')
                                         (elems (capturedResources snapshot'))])
                         else (this2, map (\<lambda>k. Send k message) (connections this2)))
                   else (this1, []))))
      | Resource \<Rightarrow>
          (let this1 = this\<lparr>resources := number_plus (resources this) (mvalue message)\<rparr>;
               remoteIndex = remoteIndexOf this1 sender
           in (this1\<lparr>snapshotTasks :=
                 map (capture remoteIndex (mvalue message)) (snapshotTasks this1)\<rparr>, [])))"

definition initiateSnapshot :: "VirtualPeer \<Rightarrow> int \<Rightarrow> VirtualPeer \<times> effect list" where
  "initiateSnapshot this i =
     (case handleMessage this \<lparr>mtype = Snapshot, mvalue = i\<rparr> None of
        (this', effs) \<Rightarrow> (this', LogInitiated i # effs))"

text \<open>
  \<^verbatim>\<open>initiatePayment\<close> calls \<^verbatim>\<open>send\<close> on the result of \<^verbatim>\<open>find\<close>. When no connection leads
  to the receiver that result is \<^verbatim>\<open>undefined\<close> and the call throws a \<^verbatim>\<open>TypeError\<close>; the
  assignment to \<^verbatim>\<open>resources\<close> before it stays.
\<close>

definition initiatePayment ::
  "VirtualPeer \<Rightarrow> peer_ref \<Rightarrow> int \<Rightarrow> VirtualPeer \<times> (error + effect list)" where
  "initiatePayment this receiver amount =
     (let this1 = this\<lparr>resources := number_minus (resources this) amount\<rparr>;
          message = \<lparr>mtype = Resource, mvalue = amount\<rparr>
      in case find (\<lambda>k. remote k = receiver) (connections this1) of
           None \<Rightarrow> (this1, Inl TypeError)
         | Some k \<Rightarrow> (this1, Inr [Send k message]))"

section \<open>The network\<close>

text \<open>
  The peers live in a heap that maps every reference to the state of its object.
  \<^verbatim>\<open>VirtualConnection.send\<close> hands the delivery to the timer queue of the runtime with
  \<^verbatim>\<open>setTimeout\<close> and returns; the callback later calls \<^verbatim>\<open>handleMessage\<close> of the remote
  peer. The timer queue belongs to the runtime, not to the source. It is modelled as a
  discrete-event queue with the guarantees that the runtime gives of its timers:
  \<^item> a timer is due at the time of its registration plus its duration, where a duration
    outside \<open>1 .. 2^31 - 1\<close> is replaced by \<open>1\<close>;
  \<^item> the event loop runs one callback to completion at a time. It is free in its choice
    among pending timers of different durations; among those of one duration it runs
    the one that is due first, and of several with the same due time the one registered
    first;
  \<^item> the clock never goes back, and a timer never fires before it is due, though it
    may fire late.
  What the source adds is in \<open>send\<close>: every message of a connection is registered with
  the one duration \<^verbatim>\<open>this.delay\<close> of that connection, at the time of the call.

  \<open>seq\<close> numbers the timers in the order of their registration; \<open>delivered\<close> records the
  timers that fired, in that order, and \<open>console\<close> the log lines.
\<close>

record Timer =
  seq :: nat
  due :: int
  conn :: VirtualConnection
  msg :: Message

record World =
  heap :: "peer_ref \<Rightarrow> VirtualPeer"
  clock :: int
  timers :: "Timer list"
  nextSeq :: nat
  delivered :: "Timer list"
  console :: "effect list"

definition timeout :: "int \<Rightarrow> int" where
  "timeout d = (if 1 \<le> d \<and> d \<le> 2147483647 then d else 1)"

definition send :: "World \<Rightarrow> VirtualConnection \<Rightarrow> Message \<Rightarrow> World" where
  "send w k m =
     w\<lparr>timers := timers w @
          [\<lparr>seq = nextSeq w, due = clock w + timeout (delay k), conn = k, msg = m\<rparr>],
       nextSeq := Suc (nextSeq w)\<rparr>"

text \<open>The effects of a call, carried out in their order.\<close>

fun perform :: "World \<Rightarrow> effect list \<Rightarrow> World" where
  "perform w [] = w"
| "perform w (Send k m # es) = perform (send w k m) es"
| "perform w (e # es) = perform (w\<lparr>console := console w @ [e]\<rparr>) es"

text \<open>The callback of a timer: \<^verbatim>\<open>this.remote.handleMessage(message, this.local)\<close>.\<close>

definition deliver :: "World \<Rightarrow> Timer \<Rightarrow> World" where
  "deliver w t =
     (case handleMessage (heap w (remote (conn t))) (msg t) (Some (local (conn t))) of
        (p, effs) \<Rightarrow> perform (w\<lparr>heap := (heap w)(remote (conn t) := p)\<rparr>) effs)"

text \<open>The calls of the driver on the peer behind a reference.\<close>

definition callInitiateSnapshot :: "World \<Rightarrow> peer_ref \<Rightarrow> int \<Rightarrow> World" where
  "callInitiateSnapshot w a i =
     (case initiateSnapshot (heap w a) i of
        (p, effs) \<Rightarrow> perform (w\<lparr>heap := (heap w)(a := p)\<rparr>) effs)"

definition callInitiatePayment ::
  "World \<Rightarrow> peer_ref \<Rightarrow> peer_ref \<Rightarrow> int \<Rightarrow> World \<times> (error + unit)" where
  "callInitiatePayment w a receiver amount =
     (case initiatePayment (heap w a) receiver amount of
        (p, Inl e) \<Rightarrow> (w\<lparr>heap := (heap w)(a := p)\<rparr>, Inl e)
      | (p, Inr effs) \<Rightarrow> (perform (w\<lparr>heap := (heap w)(a := p)\<rparr>) effs, Inr ()))"

text \<open>\<^verbatim>\<open>connect\<close> pushes one connection on each of the two peers, first on \<open>a\<close>.\<close>

definition connect :: "World \<Rightarrow> peer_ref \<Rightarrow> peer_ref \<Rightarrow> int \<Rightarrow> int \<Rightarrow> World" where
  "connect w a b delayab delayba =
     (let h1 = (heap w)(a := (heap w a)\<lparr>connections := connections (heap w a) @
                  [\<lparr>local = a, remote = b, delay = delayab\<rparr>]\<rparr>);
          h2 = h1(b := (h1 b)\<lparr>connections := connections (h1 b) @
                  [\<lparr>local = b, remote = a, delay = delayba\<rparr>]\<rparr>)
      in w\<lparr>heap := h2\<rparr>)"

text \<open>
  The duration of a pending timer, and whether the event loop may run the timer at
  position \<open>n\<close> of the queue next: no pending timer of the same duration is due before
  it, and none that was registered before it is due at the same time.
\<close>

definition duration :: "Timer \<Rightarrow> int" where
  "duration t = timeout (delay (conn t))"

definition mayFire :: "Timer list \<Rightarrow> nat \<Rightarrow> bool" where
  "mayFire ts n \<longleftrightarrow>
     n < length ts
   \<and> list_all (\<lambda>t. duration t = duration (ts ! n) \<longrightarrow> due (ts ! n) < due t) (take n ts)
   \<and> list_all (\<lambda>t. duration t = duration (ts ! n) \<longrightarrow> due (ts ! n) \<le> due t)
        (drop (Suc n) ts)"

text \<open>
  The event loop runs the timer at position \<open>n\<close>, at its due time or later. Nothing
  happens when that timer may not run.
\<close>

definition fire :: "World \<Rightarrow> nat \<Rightarrow> World" where
  "fire w n =
     (if mayFire (timers w) n then
        (let t = timers w ! n in
         deliver (w\<lparr>clock := max (clock w) (due t),
                   timers := take n (timers w) @ drop (Suc n) (timers w),
                   delivered := delivered w @ [t]\<rparr>) t)
      else w)"

text \<open>
  What can happen to a network: a call of the driver, the passing of time, and the
  firing of a pending timer. A run is a sequence of these.
\<close>

datatype action =
  Connect peer_ref peer_ref int int
| InitiateSnapshot peer_ref int
| InitiatePayment peer_ref peer_ref int
| Elapse nat
| Fire nat

fun step :: "World \<Rightarrow> action \<Rightarrow> World" where
  "step w (Connect a b dab dba) = connect w a b dab dba"
| "step w (InitiateSnapshot a i) = callInitiateSnapshot w a i"
| "step w (InitiatePayment a b amount) = fst (callInitiatePayment w a b amount)"
| "step w (Elapse d) = w\<lparr>clock := clock w + int d\<rparr>"
| "step w (Fire n) = fire w n"

definition run :: "World \<Rightarrow> action list \<Rightarrow> World" where
  "run w acts = foldl step w acts"

text \<open>
  The calls that one peer can receive, and a sequence of them. A payment that throws
  leaves its debit behind and has no other effect.
\<close>

datatype call =
  HandleMessage Message "peer_ref option"
| CallInitiateSnapshot int
| CallInitiatePayment peer_ref int

fun invoke :: "VirtualPeer \<Rightarrow> call \<Rightarrow> VirtualPeer \<times> effect list" where
  "invoke this (HandleMessage m sender) = handleMessage this m sender"
| "invoke this (CallInitiateSnapshot i) = initiateSnapshot this i"
| "invoke this (CallInitiatePayment receiver amount) =
     (case initiatePayment this receiver amount of
        (p, Inl e) \<Rightarrow> (p, [])
      | (p, Inr effs) \<Rightarrow> (p, effs))"

fun invokeAll :: "VirtualPeer \<Rightarrow> call list \<Rightarrow> VirtualPeer \<times> effect list" where
  "invokeAll this [] = (this, [])"
| "invokeAll this (c # cs) =
     (case invoke this c of (p, effs) \<Rightarrow>
        (case invokeAll p cs of (q, effs') \<Rightarrow> (q, effs @ effs')))"

section \<open>The scenario of the controller\<close>

text \<open>
  The controller creates the peers \<open>i\<close>, \<open>j\<close> and \<open>k\<close> with 100 resources each and joins
  every two of them. Their references are \<open>0\<close>, \<open>1\<close> and \<open>2\<close>.
\<close>

definition newPeer :: "string \<Rightarrow> int \<Rightarrow> VirtualPeer" where
  "newPeer n r = \<lparr>name = n, resources = Num r, connections = [], snapshotTasks = []\<rparr>"

definition controller :: World where
  "controller =
     connect (connect (connect
       \<lparr>heap = (\<lambda>r. newPeer [] 0)
                 (0 := newPeer ''i'' 100, 1 := newPeer ''j'' 100, 2 := newPeer ''k'' 100),
        clock = 0, timers = [], nextSeq = 0, delivered = [], console = []\<rparr>
       0 1 1000 1300) 1 2 2100 2400) 0 2 1600 1900"

text \<open>
  A network at the edge of the integers that doubles tell apart: peer \<open>0\<close> holds \<open>- 2^53\<close>,
  peer \<open>2\<close> holds \<open>2^53\<close> and peer \<open>1\<close> holds 100; \<open>0\<close> and \<open>1\<close> are joined, and so are
  \<open>1\<close> and \<open>2\<close>.
\<close>

definition edge :: World where
  "edge =
     connect (connect
       \<lparr>heap = (\<lambda>r. newPeer [] 0)
                 (0 := newPeer ''a'' (- 9007199254740992), 1 := newPeer ''b'' 100,
                  2 := newPeer ''c'' 9007199254740992),
        clock = 0, timers = [], nextSeq = 0, delivered = [], console = []\<rparr>
       0 1 10 10) 1 2 10 10"

text \<open>
  Peer \<open>j\<close> after the marker of snapshot 201 has arrived from \<open>i\<close>, and peer \<open>k\<close> after
  the marker of snapshot 201 has arrived from \<open>i\<close> and the one of snapshot 301 from \<open>j\<close>.
\<close>

definition j_listening :: VirtualPeer where
  "j_listening =
     fst (handleMessage (heap controller 1) \<lparr>mtype = Snapshot, mvalue = 201\<rparr> (Some 0))"

definition k_two_tasks :: VirtualPeer where
  "k_two_tasks =
     fst (handleMessage
            (fst (handleMessage (heap controller 2) \<lparr>mtype = Snapshot, mvalue = 201\<rparr> (Some 0)))
            \<lparr>mtype = Snapshot, mvalue = 301\<rparr> (Some 1))"

text \<open>
  Peer \<open>j\<close> pays \<open>k\<close> twice at the same instant. When both timers are due, the event
  loop does not run the second before the first (\<open>Fire 1\<close> does nothing); then both fire.
\<close>

definition two_payments :: "action list" where
  "two_payments =
     [InitiatePayment 1 2 35, InitiatePayment 1 2 7, Elapse 2100, Fire 1, Fire 0, Fire 0]"

section \<open>The invariant of the timer queue\<close>

text \<open>
  What holds of the queue in every network that a run reaches: the timers carry the
  numbers of their registration in order; pending timers of one connection are due in
  that order, none later than a timer registered now would be; and what was delivered
  on a connection was registered before what is still pending on it, and was delivered
  in the order of registration.
\<close>

definition queue_inv :: "World \<Rightarrow> bool" where
  "queue_inv w \<longleftrightarrow>
     (\<forall>t \<in> set (timers w) \<union> set (delivered w). seq t < nextSeq w)
   \<and> sorted_wrt (\<lambda>a b. seq a < seq b) (timers w)
   \<and> sorted_wrt (\<lambda>a b. conn a = conn b \<longrightarrow> due a \<le> due b) (timers w)
   \<and> (\<forall>t \<in> set (timers w). due t \<le> clock w + timeout (delay (conn t)))
   \<and> (\<forall>d \<in> set (delivered w). \<forall>t \<in> set (timers w). conn d = conn t \<longrightarrow> seq d < seq t)
   \<and> sorted_wrt (\<lambda>a b. conn a = conn b \<longrightarrow> seq a < seq b) (delivered w)"

section \<open>Properties\<close>

subsection \<open>Rounding\<close>

declare bit_length.simps [simp del]

lemma round_double_exact: "\<bar>z\<bar> \<le> 2 ^ 53 \<Longrightarrow> round_double z = Num z"
  by (simp add: round_double_def Let_def nat_le_iff)

lemma number_plus_exact: "\<bar>x + v\<bar> \<le> 2 ^ 53 \<Longrightarrow> number_plus (Num x) v = Num (x + v)"
  by (simp add: round_double_exact)

lemma number_minus_exact: "\<bar>x - v\<bar> \<le> 2 ^ 53 \<Longrightarrow> number_minus (Num x) v = Num (x - v)"
  by (simp add: round_double_exact)

text \<open>
  Beyond \<open>2^53\<close> the doubles are the even integers, then the multiples of four, and so
  on: \<open>2^53 + 1\<close> lies between two doubles and goes to the even mantissa below,
  \<open>2^53 + 3\<close> to the one above, and twice the largest double is infinite.
\<close>

lemma bit_length_above: "bit_length 9007199254740993 = 54"
  by (simp add: bit_length.simps)


lemma round_double_below: "round_double (- 9007199254740993) = Num (- 9007199254740992)"
  by (simp add: round_double_def Let_def bit_length_above)

lemma bit_length_above3: "bit_length 9007199254740995 = 54"
  by (simp add: bit_length.simps)

lemma round_double_above3: "round_double 9007199254740995 = Num 9007199254740996"
  by (simp add: round_double_def Let_def bit_length_above3)

lemma bit_length_twice_largest:
  "bit_length (2 * 179769313486231570814527423731704356798070567525844996598917476803157260780028538760589558632766878171540458953514382464234321326889464182768467546703537516986049910576551282076245490090389328944075868508455133942304583236903222948165808559332123348274797826204144723168738177180919299881250404026184124858368) = 1025"
  by (simp add: bit_length.simps)

lemma round_double_twice_largest:
  "round_double (2 * 179769313486231570814527423731704356798070567525844996598917476803157260780028538760589558632766878171540458953514382464234321326889464182768467546703537516986049910576551282076245490090389328944075868508455133942304583236903222948165808559332123348274797826204144723168738177180919299881250404026184124858368) = PosInf"
  using bit_length_twice_largest by (simp add: round_double_def Let_def)

subsection \<open>The scenario, evaluated\<close>

lemma controller_i:
  "heap controller 0 = \<lparr>name = ''i'', resources = Num 100,
     connections = [\<lparr>local = 0, remote = 1, delay = 1000\<rparr>,
                    \<lparr>local = 0, remote = 2, delay = 1600\<rparr>],
     snapshotTasks = []\<rparr>"
  by (simp add: controller_def connect_def newPeer_def)

lemma controller_j:
  "heap controller (Suc 0) = \<lparr>name = ''j'', resources = Num 100,
     connections = [\<lparr>local = 1, remote = 0, delay = 1300\<rparr>,
                    \<lparr>local = 1, remote = 2, delay = 2100\<rparr>],
     snapshotTasks = []\<rparr>"
  by (simp add: controller_def connect_def newPeer_def)

lemma controller_k:
  "heap controller 2 = \<lparr>name = ''k'', resources = Num 100,
     connections = [\<lparr>local = 2, remote = 1, delay = 2400\<rparr>,
                    \<lparr>local = 2, remote = 0, delay = 1900\<rparr>],
     snapshotTasks = []\<rparr>"
  by (simp add: controller_def connect_def newPeer_def)

lemma edge_a:
  "heap edge 0 = \<lparr>name = ''a'', resources = Num (- 9007199254740992),
     connections = [\<lparr>local = 0, remote = 1, delay = 10\<rparr>],
     snapshotTasks = []\<rparr>"
  by (simp add: edge_def connect_def newPeer_def)

lemma edge_b:
  "heap edge (Suc 0) = \<lparr>name = ''b'', resources = Num 100,
     connections = [\<lparr>local = 1, remote = 0, delay = 10\<rparr>,
                    \<lparr>local = 1, remote = 2, delay = 10\<rparr>],
     snapshotTasks = []\<rparr>"
  by (simp add: edge_def connect_def newPeer_def)


lemma edge_queue:
  "timers edge = [] \<and> delivered edge = [] \<and> clock edge = 0 \<and> nextSeq edge = 0"
  by (simp add: edge_def connect_def)

lemma controller_queue:
  "timers controller = [] \<and> delivered controller = [] \<and> clock controller = 0
   \<and> nextSeq controller = 0"
  by (simp add: controller_def connect_def)

lemma j_listening_eq:
  "j_listening =
     \<lparr>name = ''j'', resources = Num 100,
      connections = [\<lparr>local = 1, remote = 0, delay = 1300\<rparr>,
                     \<lparr>local = 1, remote = 2, delay = 2100\<rparr>],
      snapshotTasks = [\<lparr>id_task = 201,
         receiveStatus = \<lparr>elems = [Some True, Some False], minus1 = None\<rparr>,
         capturedResources = \<lparr>elems = [Some (Num 0), Some (Num 0), Some (Num 100)],
                                minus1 = None\<rparr>\<rparr>]\<rparr>"
  by (simp add: j_listening_def controller_j handleMessage_def joinSnapshot_def
        remoteIndexOf_def newSnapshotTask_def mk_array_def present_def Let_def)

lemma k_two_tasks_eq:
  "k_two_tasks =
     \<lparr>name = ''k'', resources = Num 100,
      connections = [\<lparr>local = 2, remote = 1, delay = 2400\<rparr>,
                     \<lparr>local = 2, remote = 0, delay = 1900\<rparr>],
      snapshotTasks =
        [\<lparr>id_task = 201,
          receiveStatus = \<lparr>elems = [Some False, Some True], minus1 = None\<rparr>,
          capturedResources = \<lparr>elems = [Some (Num 0), Some (Num 0), Some (Num 100)],
                                 minus1 = None\<rparr>\<rparr>,
         \<lparr>id_task = 301,
          receiveStatus = \<lparr>elems = [Some True, Some False], minus1 = None\<rparr>,
          capturedResources = \<lparr>elems = [Some (Num 0), Some (Num 0), Some (Num 100)],
                                 minus1 = None\<rparr>\<rparr>]\<rparr>"
  by (simp add: k_two_tasks_def controller_k handleMessage_def joinSnapshot_def
        remoteIndexOf_def newSnapshotTask_def mk_array_def present_def Let_def)

subsection \<open>Lists, lookups and the task of a snapshot\<close>

lemma find_remote_None:
  "find (\<lambda>k. remote k = r) ks = None \<longleftrightarrow> r \<notin> set (map remote ks)"
  by (induction ks) auto

lemma find_remote_Some:
  "find (\<lambda>k. remote k = r) ks = Some k \<Longrightarrow> remote k = r \<and> k \<in> set ks"
  by (induction ks) (auto split: if_splits)

lemma indexOf_less: "indexOf xs x = Some i \<Longrightarrow> i < length xs"
proof (induction xs arbitrary: i)
  case Nil
  then show ?case by simp
next
  case (Cons y ys)
  then show ?case by (cases "y = x") auto
qed

lemma remoteIndexOf_less:
  "remoteIndexOf p sender = Some i \<Longrightarrow> i < length (connections p)"
  by (auto simp: remoteIndexOf_def split: option.splits dest: indexOf_less)

lemma find_replaceFirst:
  "find P xs = Some x \<Longrightarrow> P y \<Longrightarrow> find P (replaceFirst P y xs) = Some y"
  by (induction xs) auto

lemma find_replaceFirst_other:
  "\<not> Q y \<Longrightarrow> (\<And>x. P x \<Longrightarrow> \<not> Q x) \<Longrightarrow> find Q (replaceFirst P y xs) = find Q xs"
  by (induction xs) auto

lemma replaceFirst_None:
  "find P xs = None \<Longrightarrow> replaceFirst P y (xs @ [z]) = xs @ (if P z then [y] else [z])"
  by (induction xs) (auto split: if_splits)

lemma find_snoc:
  "find P (xs @ [z]) =
     (case find P xs of Some x \<Rightarrow> Some x | None \<Rightarrow> if P z then Some z else None)"
  by (induction xs) auto

lemma map_id_replaceFirst:
  "id_task y = e \<Longrightarrow> map id_task (replaceFirst (\<lambda>k. id_task k = e) y xs) = map id_task xs"
  by (induction xs) auto

lemma find_id_None:
  "find (\<lambda>k. id_task k = e) xs = None \<longleftrightarrow> e \<notin> id_task ` set xs"
  by (induction xs) auto

lemma find_id_Some:
  "find (\<lambda>k. id_task k = e) xs = Some t \<Longrightarrow> id_task t = e \<and> t \<in> set xs"
  by (induction xs) (auto split: if_splits)

lemma id_task_capture: "id_task (capture ri v t) = id_task t"
  by (simp add: capture_def)

lemma find_map_capture:
  "find (\<lambda>k. id_task k = e) (map (capture ri v) xs) =
     map_option (capture ri v) (find (\<lambda>k. id_task k = e) xs)"
  by (induction xs) (auto simp: id_task_capture)

lemma no_false_iff: "filter Not bs = [] \<longleftrightarrow> list_all (\<lambda>b. b) bs"
  by (induction bs) auto

lemma ids_joinSnapshot:
  assumes "joinSnapshot this e = (t, this1)"
  shows "id_task t = e"
    and "map id_task (snapshotTasks this1) =
           map id_task (snapshotTasks this) @
             (if e \<in> id_task ` set (snapshotTasks this) then [] else [e])"
proof -
  show "id_task t = e"
    using assms
    by (auto simp: joinSnapshot_def newSnapshotTask_def split: option.splits
        dest: find_id_Some)
  show "map id_task (snapshotTasks this1) =
          map id_task (snapshotTasks this) @
            (if e \<in> id_task ` set (snapshotTasks this) then [] else [e])"
  proof (cases "find (\<lambda>k. id_task k = e) (snapshotTasks this)")
    case None
    then have "e \<notin> id_task ` set (snapshotTasks this)"
      by (simp add: find_id_None)
    then show ?thesis using assms None
      by (auto simp: joinSnapshot_def newSnapshotTask_def)
  next
    case (Some s)
    then have "e \<in> id_task ` set (snapshotTasks this)"
      using find_id_Some by force
    then show ?thesis using assms Some
      by (auto simp: joinSnapshot_def)
  qed
qed

lemma joinSnapshot_find:
  assumes "joinSnapshot this e = (t, this1)"
  shows "find (\<lambda>k. id_task k = e) (snapshotTasks this1) = Some t"
    and "connections this1 = connections this"
    and "resources this1 = resources this"
    and "id_task t = e"
proof -
  show "find (\<lambda>k. id_task k = e) (snapshotTasks this1) = Some t"
  proof (cases "find (\<lambda>k. id_task k = e) (snapshotTasks this)")
    case None
    then show ?thesis using assms
      by (auto simp: joinSnapshot_def newSnapshotTask_def find_snoc)
  next
    case (Some s)
    then show ?thesis using assms by (auto simp: joinSnapshot_def)
  qed
  show "connections this1 = connections this" "resources this1 = resources this"
    using assms by (auto simp: joinSnapshot_def split: option.splits)
  show "id_task t = e" using assms by (rule ids_joinSnapshot)
qed

lemma ids_handleMessage:
  "map id_task (snapshotTasks (fst (handleMessage this m sender))) =
     map id_task (snapshotTasks this) @
       (if mtype m = Snapshot \<and> mvalue m \<notin> id_task ` set (snapshotTasks this)
        then [mvalue m] else [])"
proof (cases "mtype m")
  case Resource
  then show ?thesis by (simp add: handleMessage_def Let_def id_task_capture comp_def)
next
  case Snapshot
  obtain t this1 where j: "joinSnapshot this (mvalue m) = (t, this1)" by force
  note ids = ids_joinSnapshot [OF j]
  show ?thesis using Snapshot ids
    by (simp add: handleMessage_def j Let_def map_id_replaceFirst split: option.splits)
qed

lemma distinct_handleMessage:
  "distinct (map id_task (snapshotTasks this)) \<Longrightarrow>
   distinct (map id_task (snapshotTasks (fst (handleMessage this m sender))))"
  by (simp only: ids_handleMessage) auto

subsection \<open>Payments to an unknown receiver\<close>

text \<open>
  Claim C6. A peer that has no connection whose remote end is the receiver fails in
  \<^verbatim>\<open>initiatePayment\<close>: the call itself returns the error, and no timer is registered, so
  no message is sent.
\<close>

theorem initiatePayment_unknown_receiver:
  assumes "receiver \<notin> set (map remote (connections (heap w a)))"
  shows "snd (callInitiatePayment w a receiver amount) = Inl TypeError
         \<and> timers (fst (callInitiatePayment w a receiver amount)) = timers w"
  using assms
  by (simp add: callInitiatePayment_def initiatePayment_def Let_def
        find_remote_None [symmetric] del: set_map)

theorem initiatePayment_unknown_receiver_witness:
  "7 \<notin> set (map remote (connections (heap controller 0)))
   \<and> snd (callInitiatePayment controller 0 7 35) = Inl TypeError
   \<and> timers (fst (callInitiatePayment controller 0 7 35)) = []"
proof -
  have h: "7 \<notin> set (map remote (connections (heap controller 0)))"
    by (simp add: controller_i)
  show ?thesis
    using h initiatePayment_unknown_receiver [OF h, of 35]
    by (simp add: controller_queue)
qed




subsection \<open>Markers\<close>

text \<open>
  Claim C4. A peer that has a task for the snapshot and receives its marker from a
  sender whose channel is already closed in that task stays as it is (resources,
  connections and every task, so every flag and vector) and sends nothing.
\<close>

theorem duplicate_marker_ignored:
  assumes "mtype message = Snapshot"
    and "find (\<lambda>k. id_task k = mvalue message) (snapshotTasks this) = Some t"
    and "indexOf (map remote (connections this)) s = Some i"
    and "js_get (receiveStatus t) (Some i) = Some True"
  shows "handleMessage this message (Some s) = (this, [])"
  using assms
  by (simp add: handleMessage_def joinSnapshot_def remoteIndexOf_def Let_def)

theorem duplicate_marker_ignored_witness:
  "mtype \<lparr>mtype = Snapshot, mvalue = 201\<rparr> = Snapshot
   \<and> find (\<lambda>k. id_task k = 201) (snapshotTasks j_listening) = Some (hd (snapshotTasks j_listening))
   \<and> indexOf (map remote (connections j_listening)) 0 = Some 0
   \<and> js_get (receiveStatus (hd (snapshotTasks j_listening))) (Some 0) = Some True
   \<and> handleMessage j_listening \<lparr>mtype = Snapshot, mvalue = 201\<rparr> (Some 0) = (j_listening, [])"
proof -
  let ?m = "\<lparr>mtype = Snapshot, mvalue = 201\<rparr>"
  have h1: "mtype ?m = Snapshot" by simp
  have h2: "find (\<lambda>k. id_task k = mvalue ?m) (snapshotTasks j_listening) =
              Some (hd (snapshotTasks j_listening))"
    by (simp add: j_listening_eq)
  have h3: "indexOf (map remote (connections j_listening)) 0 = Some 0"
    by (simp add: j_listening_eq)
  have h4: "js_get (receiveStatus (hd (snapshotTasks j_listening))) (Some 0) = Some True"
    by (simp add: j_listening_eq)
  show ?thesis
    using h2 h3 h4 duplicate_marker_ignored [OF h1 h2 h3 h4] by simp
qed

text \<open>
  Claim C5. \<^verbatim>\<open>initiateSnapshot\<close> is \<^verbatim>\<open>handleMessage\<close> of a marker with no sender, behind
  its log line. Whether or not the peer has a task for the snapshot, the marker goes out
  on every connection of the peer, and the peer changes only by the new task, if one is
  created; the flags of that task are all false, so no flag of any task is set.
\<close>

theorem initiateSnapshot_forwards:
  "initiateSnapshot this e =
     (this\<lparr>snapshotTasks := snapshotTasks this @
          (case find (\<lambda>k. id_task k = e) (snapshotTasks this) of
             Some s \<Rightarrow> []
           | None \<Rightarrow> [newSnapshotTask this e])\<rparr>,
      LogInitiated e # map (\<lambda>k. Send k \<lparr>mtype = Snapshot, mvalue = e\<rparr>) (connections this))
   \<and> fst (initiateSnapshot this e) =
       fst (handleMessage this \<lparr>mtype = Snapshot, mvalue = e\<rparr> None)
   \<and> snd (initiateSnapshot this e) =
       LogInitiated e # snd (handleMessage this \<lparr>mtype = Snapshot, mvalue = e\<rparr> None)
   \<and> receiveStatus (newSnapshotTask this e) =
       \<lparr>elems = replicate (length (connections this)) (Some False), minus1 = None\<rparr>"
  by (simp add: initiateSnapshot_def handleMessage_def joinSnapshot_def newSnapshotTask_def
        mk_array_def map_replicate_const split: option.splits)

subsection \<open>One task per snapshot\<close>

text \<open>
  Claim C8. If the tasks of a peer have pairwise different ids, they still have after
  \<^verbatim>\<open>handleMessage\<close> of any message (of either kind, from any sender or none), after
  \<^verbatim>\<open>initiateSnapshot\<close> and after \<^verbatim>\<open>initiatePayment\<close>, also when the payment throws.
\<close>

theorem one_task_per_snapshot:
  assumes "distinct (map id_task (snapshotTasks this))"
  shows "distinct (map id_task (snapshotTasks (fst (handleMessage this m sender))))
       \<and> distinct (map id_task (snapshotTasks (fst (initiateSnapshot this e))))
       \<and> distinct (map id_task (snapshotTasks (fst (initiatePayment this receiver amount))))"
proof -
  have 1: "distinct (map id_task (snapshotTasks (fst (handleMessage this m' s'))))" for m' s'
    using assms by (rule distinct_handleMessage)
  have 2: "fst (initiateSnapshot this e) =
             fst (handleMessage this \<lparr>mtype = Snapshot, mvalue = e\<rparr> None)"
    by (simp add: initiateSnapshot_def split: prod.splits)
  have 3: "snapshotTasks (fst (initiatePayment this receiver amount)) = snapshotTasks this"
    by (simp add: initiatePayment_def Let_def split: option.splits)
  show ?thesis using 1 2 3 assms by simp
qed

theorem one_task_per_snapshot_witness:
  "distinct (map id_task (snapshotTasks k_two_tasks))
   \<and> map id_task (snapshotTasks
        (fst (handleMessage k_two_tasks \<lparr>mtype = Snapshot, mvalue = 401\<rparr> (Some 0)))) =
       [201, 301, 401]
   \<and> distinct (map id_task (snapshotTasks
        (fst (handleMessage k_two_tasks \<lparr>mtype = Snapshot, mvalue = 401\<rparr> (Some 0)))))
   \<and> distinct (map id_task (snapshotTasks (fst (initiateSnapshot k_two_tasks 301))))
   \<and> distinct (map id_task (snapshotTasks (fst (initiatePayment k_two_tasks 7 5))))"
proof -
  have h: "distinct (map id_task (snapshotTasks k_two_tasks))"
    by (simp add: k_two_tasks_eq)
  have ids: "map id_task (snapshotTasks
        (fst (handleMessage k_two_tasks \<lparr>mtype = Snapshot, mvalue = 401\<rparr> (Some 0)))) =
       [201, 301, 401]"
    by (simp add: ids_handleMessage k_two_tasks_eq)
  show ?thesis
    using h ids
      one_task_per_snapshot [OF h, of "\<lparr>mtype = Snapshot, mvalue = 401\<rparr>" "Some 0" 301 7 5]
    by simp
qed

text \<open>
  Claim C1. A marker arrives from a sender that is the remote end of connection \<open>i\<close>,
  and in the task of the snapshot (the one the peer has, or the one it creates now) the
  flag of that connection is false. Then \<^verbatim>\<open>handleMessage\<close> sets that flag and changes
  nothing else. If every flag of the task is true after that, the peer logs the vector
  of the task and sends nothing; otherwise it sends the marker on each of its
  connections.
\<close>

theorem marker_closes_channel:
  assumes "mtype message = Snapshot"
    and "joinSnapshot this (mvalue message) = (snapshot, this1)"
    and "indexOf (map remote (connections this)) s = Some i"
    and "js_get (receiveStatus snapshot) (Some i) = Some False"
    and "handleMessage this message (Some s) = (this', effs)"
  shows "\<exists>t. find (\<lambda>k. id_task k = mvalue message) (snapshotTasks this') = Some t
      \<and> this' = this1\<lparr>snapshotTasks :=
           replaceFirst (\<lambda>k. id_task k = mvalue message) t (snapshotTasks this1)\<rparr>
      \<and> t = snapshot\<lparr>receiveStatus := (receiveStatus snapshot)
             \<lparr>elems := (elems (receiveStatus snapshot))[i := Some True]\<rparr>\<rparr>
      \<and> js_get (receiveStatus t) (Some i) = Some True
      \<and> effs = (if list_all (\<lambda>b. b) (present (receiveStatus t))
                then [LogCompleted (mvalue message) (elems (capturedResources t))]
                else map (\<lambda>k. Send k message) (connections this))"
proof -
  let ?t = "snapshot\<lparr>receiveStatus := (receiveStatus snapshot)
             \<lparr>elems := (elems (receiveStatus snapshot))[i := Some True]\<rparr>\<rparr>"
  note j = joinSnapshot_find [OF assms(2)]
  have i: "i < length (elems (receiveStatus snapshot))"
    using assms(4) by (simp split: if_splits)
  have set: "js_set (receiveStatus snapshot) (Some i) True =
      (receiveStatus snapshot)\<lparr>elems := (elems (receiveStatus snapshot))[i := Some True]\<rparr>"
    using i by simp
  have res: "this' = this1\<lparr>snapshotTasks :=
           replaceFirst (\<lambda>k. id_task k = mvalue message) ?t (snapshotTasks this1)\<rparr>"
     "effs = (if list_all (\<lambda>b. b) (present (receiveStatus ?t))
                then [LogCompleted (mvalue message) (elems (capturedResources ?t))]
                else map (\<lambda>k. Send k message) (connections this))"
    using assms(1,3,4,5) j(2,4) set
    by (auto simp add: handleMessage_def assms(2) remoteIndexOf_def Let_def no_false_iff
        simp del: js_set.simps js_get.simps split: if_splits)
  have f: "find (\<lambda>k. id_task k = mvalue message) (snapshotTasks this') = Some ?t"
    unfolding res(1) using j(1,4) by (simp add: find_replaceFirst)
  have g: "js_get (receiveStatus ?t) (Some i) = Some True"
    using i by simp
  show ?thesis using res f g by blast
qed

theorem marker_closes_channel_witness:
  "mtype \<lparr>mtype = Snapshot, mvalue = 201\<rparr> = Snapshot
   \<and> joinSnapshot j_listening 201 = (hd (snapshotTasks j_listening), j_listening)
   \<and> indexOf (map remote (connections j_listening)) 2 = Some 1
   \<and> js_get (receiveStatus (hd (snapshotTasks j_listening))) (Some 1) = Some False
   \<and> map receiveStatus (snapshotTasks
        (fst (handleMessage j_listening \<lparr>mtype = Snapshot, mvalue = 201\<rparr> (Some 2)))) =
       [\<lparr>elems = [Some True, Some True], minus1 = None\<rparr>]
   \<and> snd (handleMessage j_listening \<lparr>mtype = Snapshot, mvalue = 201\<rparr> (Some 2)) =
       [LogCompleted 201 [Some (Num 0), Some (Num 0), Some (Num 100)]]"
proof -
  let ?m = "\<lparr>mtype = Snapshot, mvalue = 201\<rparr>"
  have h1: "mtype ?m = Snapshot" by simp
  have h2: "joinSnapshot j_listening (mvalue ?m) = (hd (snapshotTasks j_listening), j_listening)"
    by (simp add: j_listening_eq joinSnapshot_def)
  have h3: "indexOf (map remote (connections j_listening)) 2 = Some 1"
    by (simp add: j_listening_eq)
  have h4: "js_get (receiveStatus (hd (snapshotTasks j_listening))) (Some 1) = Some False"
    by (simp add: j_listening_eq)
  have h5: "handleMessage j_listening ?m (Some 2) =
      (fst (handleMessage j_listening ?m (Some 2)), snd (handleMessage j_listening ?m (Some 2)))"
    by simp
  from marker_closes_channel [OF h1 h2 h3 h4 h5]
  obtain t where t: "fst (handleMessage j_listening ?m (Some 2)) =
        j_listening\<lparr>snapshotTasks :=
          replaceFirst (\<lambda>k. id_task k = mvalue ?m) t (snapshotTasks j_listening)\<rparr>"
      "t = (hd (snapshotTasks j_listening))\<lparr>receiveStatus :=
             (receiveStatus (hd (snapshotTasks j_listening)))
               \<lparr>elems := (elems (receiveStatus (hd (snapshotTasks j_listening))))
                            [1 := Some True]\<rparr>\<rparr>"
      "snd (handleMessage j_listening ?m (Some 2)) =
         (if list_all (\<lambda>b. b) (present (receiveStatus t))
          then [LogCompleted (mvalue ?m) (elems (capturedResources t))]
          else map (\<lambda>k. Send k ?m) (connections j_listening))"
    by blast
  have t': "t = \<lparr>id_task = 201,
         receiveStatus = \<lparr>elems = [Some True, Some True], minus1 = None\<rparr>,
         capturedResources = \<lparr>elems = [Some (Num 0), Some (Num 0), Some (Num 100)],
                                minus1 = None\<rparr>\<rparr>"
    unfolding t(2) by (simp add: j_listening_eq)
  have a: "map receiveStatus (snapshotTasks (fst (handleMessage j_listening ?m (Some 2)))) =
       [\<lparr>elems = [Some True, Some True], minus1 = None\<rparr>]"
    unfolding t(1) t' by (simp add: j_listening_eq)
  have b: "snd (handleMessage j_listening ?m (Some 2)) =
       [LogCompleted 201 [Some (Num 0), Some (Num 0), Some (Num 100)]]"
    unfolding t(3) t' by (simp add: present_def)
  show ?thesis using h2 h3 h4 a b by simp
qed

subsection \<open>Resource transfers\<close>




subsection \<open>The vector of a snapshot\<close>

text \<open>
  How one call of \<^verbatim>\<open>handleMessage\<close> treats the task of snapshot \<open>e\<close>: a marker of \<open>e\<close> keeps
  its vector and logs nothing else, a marker of another snapshot leaves the task alone,
  and a transfer passes it through \<open>capture\<close>.
\<close>

lemma handle_marker_same:
  assumes "mtype m = Snapshot" and "joinSnapshot p (mvalue m) = (s, p1)"
    and "handleMessage p m sender = (p', effs)"
  shows "connections p' = connections p
    \<and> resources p' = resources p
    \<and> (\<exists>s'. find (\<lambda>k. id_task k = mvalue m) (snapshotTasks p') = Some s'
             \<and> capturedResources s' = capturedResources s)
    \<and> (\<forall>v. LogCompleted (mvalue m) v \<in> set effs \<longrightarrow> v = elems (capturedResources s))"
proof -
  note j = joinSnapshot_find [OF assms(2)]
  show ?thesis
  proof (cases sender)
    case None
    then show ?thesis using assms j
      by (auto simp: handleMessage_def)
  next
    case (Some r)
    show ?thesis
    proof (cases "truthy (js_get (receiveStatus s) (remoteIndexOf p1 sender))")
      case True
      then show ?thesis using assms j Some
        by (auto simp: handleMessage_def Let_def)
    next
      case False
      let ?s = "s\<lparr>receiveStatus := js_set (receiveStatus s) (remoteIndexOf p1 sender) True\<rparr>"
      have p': "p' = p1\<lparr>snapshotTasks :=
                  replaceFirst (\<lambda>k. id_task k = mvalue m) ?s (snapshotTasks p1)\<rparr>"
        using assms False Some by (auto simp: handleMessage_def Let_def split: if_splits)
      have f: "find (\<lambda>k. id_task k = mvalue m) (snapshotTasks p') = Some ?s"
        unfolding p' using j(1,4) by (simp add: find_replaceFirst)
      have e: "\<forall>v. LogCompleted (mvalue m) v \<in> set effs \<longrightarrow> v = elems (capturedResources s)"
        using assms False Some by (auto simp: handleMessage_def Let_def split: if_splits)
      show ?thesis using p' f e j by simp
    qed
  qed
qed

lemma handle_marker_other:
  assumes "mtype m = Snapshot" and "mvalue m \<noteq> e"
    and "handleMessage p m sender = (p', effs)"
  shows "connections p' = connections p
    \<and> find (\<lambda>k. id_task k = e) (snapshotTasks p') = find (\<lambda>k. id_task k = e) (snapshotTasks p)
    \<and> (\<forall>v. LogCompleted e v \<notin> set effs)"
proof -
  obtain s p1 where js: "joinSnapshot p (mvalue m) = (s, p1)" by force
  note j = joinSnapshot_find [OF js]
  have f1: "find (\<lambda>k. id_task k = e) (snapshotTasks p1) =
            find (\<lambda>k. id_task k = e) (snapshotTasks p)"
    using js assms(2)
    by (auto simp: joinSnapshot_def find_snoc newSnapshotTask_def split: option.splits)
  have f2: "find (\<lambda>k. id_task k = e)
              (replaceFirst (\<lambda>k. id_task k = mvalue m) y (snapshotTasks p1))
      = find (\<lambda>k. id_task k = e) (snapshotTasks p1)" if "id_task y = mvalue m" for y
    using that assms(2) by (intro find_replaceFirst_other) auto
  show ?thesis
    using assms j f1 f2
    by (auto simp: handleMessage_def js Let_def split: option.splits if_splits)
qed

lemma handle_resource:
  assumes "mtype m = Resource" and "handleMessage p m sender = (p', effs)"
  shows "connections p' = connections p \<and> effs = []
    \<and> find (\<lambda>k. id_task k = e) (snapshotTasks p') =
        map_option (capture (remoteIndexOf p sender) (mvalue m))
          (find (\<lambda>k. id_task k = e) (snapshotTasks p))"
  using assms
  by (auto simp: handleMessage_def Let_def find_map_capture remoteIndexOf_def
      split: option.splits)

lemma capture_vector:
  assumes "length (elems (capturedResources t)) = Suc n"
    and "ri = None \<or> (\<exists>i<n. ri = Some i)"
  shows "length (elems (capturedResources (capture ri v t))) = Suc n
    \<and> elems (capturedResources (capture ri v t)) ! n = elems (capturedResources t) ! n"
  using assms by (auto simp: capture_def)

text \<open>
  A peer with \<open>n\<close> connections whose task of snapshot \<open>e\<close> has a vector of length \<open>n + 1\<close>
  with last entry \<open>x\<close> keeps all this through every call, and every vector it logs for
  \<open>e\<close> has that length and that last entry.
\<close>

lemma handleMessage_vector:
  assumes "length (connections p) = n"
    and "find (\<lambda>k. id_task k = e) (snapshotTasks p) = Some t"
    and "length (elems (capturedResources t)) = Suc n"
    and "elems (capturedResources t) ! n = x"
    and "handleMessage p m sender = (p', effs)"
  shows "length (connections p') = n
    \<and> (\<exists>t'. find (\<lambda>k. id_task k = e) (snapshotTasks p') = Some t'
          \<and> length (elems (capturedResources t')) = Suc n
          \<and> elems (capturedResources t') ! n = x)
    \<and> (\<forall>v. LogCompleted e v \<in> set effs \<longrightarrow> length v = Suc n \<and> v ! n = x)"
proof (cases "mtype m")
  case Resource
  have ri: "remoteIndexOf p sender = None \<or> (\<exists>i<n. remoteIndexOf p sender = Some i)"
    using remoteIndexOf_less [of p sender] assms(1) by (cases "remoteIndexOf p sender") auto
  note cv = capture_vector [OF assms(3) ri, of "mvalue m"]
  show ?thesis
    using handle_resource [OF Resource assms(5), of e] assms(1,2,4) cv by simp
next
  case Snapshot
  show ?thesis
  proof (cases "mvalue m = e")
    case True
    have js: "joinSnapshot p (mvalue m) = (t, p)"
      using assms(2) True by (simp add: joinSnapshot_def)
    show ?thesis
      using handle_marker_same [OF Snapshot js assms(5)] assms(1,3,4) True by auto
  next
    case False
    show ?thesis
      using handle_marker_other [OF Snapshot False assms(5)] assms(1,2,3,4) by auto
  qed
qed

lemma invoke_vector:
  assumes "length (connections p) = n"
    and "find (\<lambda>k. id_task k = e) (snapshotTasks p) = Some t"
    and "length (elems (capturedResources t)) = Suc n"
    and "elems (capturedResources t) ! n = x"
    and "invoke p c = (p', effs)"
  shows "length (connections p') = n
    \<and> (\<exists>t'. find (\<lambda>k. id_task k = e) (snapshotTasks p') = Some t'
          \<and> length (elems (capturedResources t')) = Suc n
          \<and> elems (capturedResources t') ! n = x)
    \<and> (\<forall>v. LogCompleted e v \<in> set effs \<longrightarrow> length v = Suc n \<and> v ! n = x)"
proof (cases c)
  case (HandleMessage m sender)
  then show ?thesis
    using handleMessage_vector [OF assms(1-4)] assms(5) by simp
next
  case (CallInitiateSnapshot i)
  obtain q effs0 where h: "handleMessage p \<lparr>mtype = Snapshot, mvalue = i\<rparr> None = (q, effs0)"
    by force
  have "p' = q" "effs = LogInitiated i # effs0"
    using assms(5) CallInitiateSnapshot h by (auto simp: initiateSnapshot_def)
  then show ?thesis
    using handleMessage_vector [OF assms(1-4) h] by auto
next
  case (CallInitiatePayment receiver amount)
  then have "connections p' = connections p" "snapshotTasks p' = snapshotTasks p"
    "\<forall>v. LogCompleted e v \<notin> set effs"
    using assms(5) by (auto simp: initiatePayment_def Let_def split: option.splits)
  then show ?thesis using assms(1-4) by simp
qed

lemma invokeAll_vector:
  assumes "length (connections p) = n"
    and "find (\<lambda>k. id_task k = e) (snapshotTasks p) = Some t"
    and "length (elems (capturedResources t)) = Suc n"
    and "elems (capturedResources t) ! n = x"
    and "invokeAll p cs = (p', effs)"
  shows "\<forall>v. LogCompleted e v \<in> set effs \<longrightarrow> length v = Suc n \<and> v ! n = x"
  using assms
proof (induction cs arbitrary: p t p' effs)
  case Nil
  then show ?case by simp
next
  case (Cons c cs)
  obtain q effs1 where c: "invoke p c = (q, effs1)" by force
  obtain r effs2 where cs: "invokeAll q cs = (r, effs2)" by force
  have e: "effs = effs1 @ effs2" using Cons.prems(5) c cs by simp
  note iv = invoke_vector [OF Cons.prems(1-4) c]
  then obtain t' where t': "find (\<lambda>k. id_task k = e) (snapshotTasks q) = Some t'"
    "length (elems (capturedResources t')) = Suc n" "elems (capturedResources t') ! n = x"
    by blast
  have "length (connections q) = n" using iv by simp
  from Cons.IH [OF this t' cs] iv show ?case unfolding e by auto
qed

text \<open>
  Claim C2. The peer has no task for snapshot \<open>e\<close> and receives its marker, from any
  sender or none. The task it creates has one flag per connection, all false, and a
  vector of one zero per connection followed by the resources of the peer; that task is
  appended to the tasks, with the flag of the sender's connection set in the same call
  when there is a sender. Whatever calls the peer receives afterwards, every vector it
  logs for \<open>e\<close>, in this call or a later one, has one entry more than the peer has
  connections, and its last entry is the resources the peer had when the marker came.
\<close>

theorem first_marker_creates_task:
  assumes "find (\<lambda>k. id_task k = e) (snapshotTasks this) = None"
    and "handleMessage this \<lparr>mtype = Snapshot, mvalue = e\<rparr> sender = (this1, effs1)"
    and "invokeAll this1 cs = (this2, effs2)"
  shows "snapshotTasks this1 = snapshotTasks this @
           [case sender of
              None \<Rightarrow> newSnapshotTask this e
            | Some r \<Rightarrow> (newSnapshotTask this e)\<lparr>receiveStatus :=
                js_set (receiveStatus (newSnapshotTask this e))
                  (indexOf (map remote (connections this)) r) True\<rparr>]
    \<and> id_task (newSnapshotTask this e) = e
    \<and> receiveStatus (newSnapshotTask this e) =
        \<lparr>elems = replicate (length (connections this)) (Some False), minus1 = None\<rparr>
    \<and> capturedResources (newSnapshotTask this e) =
        \<lparr>elems = replicate (length (connections this)) (Some (Num 0)) @
                  [Some (resources this)],
         minus1 = None\<rparr>
    \<and> (\<forall>v. LogCompleted e v \<in> set (effs1 @ effs2) \<longrightarrow>
          length v = length (connections this) + 1 \<and> last v = Some (resources this))"
proof -
  let ?n = "length (connections this)"
  let ?new = "newSnapshotTask this e"
  let ?m = "\<lparr>mtype = Snapshot, mvalue = e\<rparr>"
  have js: "joinSnapshot this (mvalue ?m) =
              (?new, this\<lparr>snapshotTasks := snapshotTasks this @ [?new]\<rparr>)"
    using assms(1) by (simp add: joinSnapshot_def)
  have new: "id_task ?new = e"
    "receiveStatus ?new = \<lparr>elems = replicate ?n (Some False), minus1 = None\<rparr>"
    "capturedResources ?new =
       \<lparr>elems = replicate ?n (Some (Num 0)) @ [Some (resources this)], minus1 = None\<rparr>"
    by (simp_all add: newSnapshotTask_def mk_array_def map_replicate_const)
  have tasks: "snapshotTasks this1 = snapshotTasks this @
           [case sender of
              None \<Rightarrow> ?new
            | Some r \<Rightarrow> ?new\<lparr>receiveStatus :=
                js_set (receiveStatus ?new) (indexOf (map remote (connections this)) r) True\<rparr>]"
  proof (cases sender)
    case None
    then show ?thesis using assms(2) by (auto simp: handleMessage_def js [simplified])
  next
    case (Some r)
    have "\<not> truthy (js_get (receiveStatus ?new) ri)" for ri
      by (cases ri) (simp_all add: new)
    then show ?thesis using assms(1,2) Some
      by (auto simp: handleMessage_def js [simplified] Let_def remoteIndexOf_def
          replaceFirst_None new(1) split: if_splits simp del: js_set.simps js_get.simps)
  qed
  have m: "mtype ?m = Snapshot" by simp
  note h = handle_marker_same [OF m js assms(2)]
  then obtain s' where s': "find (\<lambda>k. id_task k = e) (snapshotTasks this1) = Some s'"
    "capturedResources s' = capturedResources ?new" by auto
  have len: "length (elems (capturedResources s')) = Suc ?n"
    and last: "elems (capturedResources s') ! ?n = Some (resources this)"
    by (simp_all add: s'(2) new nth_append)
  have c1: "length (connections this1) = ?n" using h by simp
  have v1: "\<forall>v. LogCompleted e v \<in> set effs1 \<longrightarrow>
              length v = Suc ?n \<and> v ! ?n = Some (resources this)"
    using h by (auto simp: new nth_append)
  note v2 = invokeAll_vector [OF c1 s'(1) len last assms(3)]
  have "length v = Suc ?n \<and> v ! ?n = x \<Longrightarrow> last v = x" for v :: "number option list" and x
    by (cases v rule: rev_cases) (auto simp: nth_append)
  then show ?thesis using tasks new v1 v2 by auto
qed

lemma j_listening_later:
  "invokeAll j_listening
     [HandleMessage \<lparr>mtype = Resource, mvalue = 35\<rparr> (Some 2),
      CallInitiatePayment 0 20,
      HandleMessage \<lparr>mtype = Snapshot, mvalue = 201\<rparr> (Some 2)] =
   (\<lparr>name = ''j'', resources = Num 115,
      connections = [\<lparr>local = 1, remote = 0, delay = 1300\<rparr>,
                     \<lparr>local = 1, remote = 2, delay = 2100\<rparr>],
      snapshotTasks = [\<lparr>id_task = 201,
         receiveStatus = \<lparr>elems = [Some True, Some True], minus1 = None\<rparr>,
         capturedResources = \<lparr>elems = [Some (Num 0), Some (Num 35), Some (Num 100)],
                                minus1 = None\<rparr>\<rparr>]\<rparr>,
    [Send \<lparr>local = 1, remote = 0, delay = 1300\<rparr> \<lparr>mtype = Resource, mvalue = 20\<rparr>,
     LogCompleted 201 [Some (Num 0), Some (Num 35), Some (Num 100)]])"
  by (simp add: j_listening_eq handleMessage_def joinSnapshot_def remoteIndexOf_def
        capture_def initiatePayment_def present_def Let_def round_double_exact)

theorem first_marker_creates_task_witness:
  "find (\<lambda>k. id_task k = 201) (snapshotTasks (heap controller 1)) = None
   \<and> fst (handleMessage (heap controller 1) \<lparr>mtype = Snapshot, mvalue = 201\<rparr> (Some 0)) =
       j_listening
   \<and> LogCompleted 201 [Some (Num 0), Some (Num 35), Some (Num 100)] \<in>
       set (snd (invokeAll j_listening
         [HandleMessage \<lparr>mtype = Resource, mvalue = 35\<rparr> (Some 2),
          CallInitiatePayment 0 20,
          HandleMessage \<lparr>mtype = Snapshot, mvalue = 201\<rparr> (Some 2)]))
   \<and> length [Some (Num 0), Some (Num 35), Some (Num 100)] =
       length (connections (heap controller 1)) + 1
   \<and> last [Some (Num 0), Some (Num 35), Some (Num 100)] =
       Some (resources (heap controller 1))"
proof -
  let ?m = "\<lparr>mtype = Snapshot, mvalue = 201\<rparr>"
  let ?cs = "[HandleMessage \<lparr>mtype = Resource, mvalue = 35\<rparr> (Some 2),
          CallInitiatePayment 0 20,
          HandleMessage \<lparr>mtype = Snapshot, mvalue = 201\<rparr> (Some 2)]"
  let ?v = "[Some (Num 0), Some (Num 35), Some (Num 100)]"
  have h1: "find (\<lambda>k. id_task k = 201) (snapshotTasks (heap controller 1)) = None"
    by (simp add: controller_j)
  have h2: "handleMessage (heap controller 1) ?m (Some 0) =
      (j_listening, snd (handleMessage (heap controller 1) ?m (Some 0)))"
    by (simp add: j_listening_def)
  have h3: "invokeAll j_listening ?cs = (fst (invokeAll j_listening ?cs), snd (invokeAll j_listening ?cs))"
    by simp
  have v: "LogCompleted 201 ?v \<in> set (snd (invokeAll j_listening ?cs))"
    by (simp only: j_listening_later) simp
  then have "LogCompleted 201 ?v \<in>
      set (snd (handleMessage (heap controller 1) ?m (Some 0)) @ snd (invokeAll j_listening ?cs))"
    by simp
  with first_marker_creates_task [OF h1 h2 h3]
  have "length ?v = length (connections (heap controller 1)) + 1
      \<and> last ?v = Some (resources (heap controller 1))"
    by blast
  then show ?thesis using h1 v by (simp add: j_listening_def)
qed

subsection \<open>A payment from send to delivery\<close>

lemma deliver_resource:
  "resources (heap (deliver w' \<lparr>seq = n, due = d, conn = k,
       msg = \<lparr>mtype = Resource, mvalue = amt\<rparr>\<rparr>) (remote k))
     = number_plus (resources (heap w' (remote k))) amt
   \<and> (\<forall>a. a \<noteq> remote k \<longrightarrow>
        heap (deliver w' \<lparr>seq = n, due = d, conn = k,
          msg = \<lparr>mtype = Resource, mvalue = amt\<rparr>\<rparr>) a = heap w' a)"
  by (simp add: deliver_def handleMessage_def Let_def)

text \<open>
  Claim C7, amended. Peer \<open>A\<close> has a connection to \<open>B\<close> and calls
  \<^verbatim>\<open>initiatePayment(B, amt)\<close>, where the resources of \<open>A\<close> before and after the debit and
  those of \<open>B\<close> after the credit are integers of magnitude at most \<open>2^53\<close>. The call
  succeeds, registers the timer \<open>t\<close> of the transfer, and leaves \<open>A\<close> with exactly \<open>amt\<close>
  less. Whenever \<open>t\<close> fires at such resources of \<open>B\<close>, \<open>B\<close> has exactly \<open>amt\<close> more than
  just before. If the resources of \<open>A\<close> and \<open>B\<close> are then still what they were after the
  send, in particular if \<open>t\<close> fires at once, their sum after the delivery is their sum
  before the send.
\<close>

theorem payment_conserved:
  assumes "find (\<lambda>k. remote k = B) (connections (heap w A)) = Some k"
    and "callInitiatePayment w A B amt = (w1, r)"
    and "t = \<lparr>seq = nextSeq w, due = clock w + timeout (delay k), conn = k,
              msg = \<lparr>mtype = Resource, mvalue = amt\<rparr>\<rparr>"
    and "resources (heap w A) = Num a" and "resources (heap w B) = Num b"
    and "\<bar>a\<bar> \<le> 2 ^ 53" and "\<bar>a - amt\<bar> \<le> 2 ^ 53" and "\<bar>b + amt\<bar> \<le> 2 ^ 53"
  shows "r = Inr () \<and> timers w1 = timers w @ [t]
    \<and> resources (heap w1 A) = Num (a - amt)
    \<and> (\<forall>w' b'. resources (heap w' B) = Num b' \<and> \<bar>b' + amt\<bar> \<le> 2 ^ 53 \<longrightarrow>
          resources (heap (deliver w' t) B) = Num (b' + amt))
    \<and> (\<forall>w'. resources (heap w' A) = resources (heap w1 A)
            \<and> resources (heap w' B) = resources (heap w1 B) \<longrightarrow>
          (\<exists>a' b'. resources (heap (deliver w' t) A) = Num a'
                 \<and> resources (heap (deliver w' t) B) = Num b' \<and> a' + b' = a + b))
    \<and> (\<exists>a' b'. resources (heap (deliver w1 t) A) = Num a'
           \<and> resources (heap (deliver w1 t) B) = Num b' \<and> a' + b' = a + b)"
proof -
  have B: "remote k = B" using find_remote_Some [OF assms(1)] by simp
  have w1: "w1 = send (w\<lparr>heap := (heap w)
                (A := (heap w A)\<lparr>resources := Num (a - amt)\<rparr>)\<rparr>)
              k \<lparr>mtype = Resource, mvalue = amt\<rparr>"
    and r: "r = Inr ()"
    using assms(1,2,4,7)
    by (auto simp: callInitiatePayment_def initiatePayment_def Let_def round_double_exact)
  have t: "timers w1 = timers w @ [t]" unfolding w1 assms(3) by (simp add: send_def)
  have a: "resources (heap w1 A) = Num (a - amt)"
    unfolding w1 by (simp add: send_def)
  have b: "A \<noteq> B \<Longrightarrow> heap w1 B = heap w B"
    unfolding w1 by (simp add: send_def)
  note d = deliver_resource [of _ "nextSeq w" "clock w + timeout (delay k)" k amt,
      folded assms(3), unfolded B]
  have credit: "resources (heap (deliver w' t) B) = Num (b' + amt)"
    if "resources (heap w' B) = Num b'" and "\<bar>b' + amt\<bar> \<le> 2 ^ 53" for w' b'
    using d [of w'] that by (simp add: round_double_exact)
  have sum: "\<exists>a' b'. resources (heap (deliver w' t) A) = Num a'
                 \<and> resources (heap (deliver w' t) B) = Num b' \<and> a' + b' = a + b"
    if "resources (heap w' A) = resources (heap w1 A)"
      and "resources (heap w' B) = resources (heap w1 B)" for w'
  proof (cases "A = B")
    case True
    have "resources (heap w' B) = Num (a - amt)" using that a True by simp
    moreover have "\<bar>(a - amt) + amt\<bar> \<le> 2 ^ 53" using assms(6) by simp
    ultimately have "resources (heap (deliver w' t) B) = Num ((a - amt) + amt)"
      by (rule credit)
    moreover have "b = a" using assms(4,5) True by simp
    ultimately show ?thesis using True by simp
  next
    case False
    have "resources (heap w' B) = Num b" using that(2) b [OF False] assms(5) by simp
    then have "resources (heap (deliver w' t) B) = Num (b + amt)"
      using assms(8) by (rule credit)
    moreover have "resources (heap (deliver w' t) A) = Num (a - amt)"
      using d [of w'] False that(1) a by simp
    ultimately show ?thesis by simp
  qed
  show ?thesis using r t a credit sum by simp
qed

theorem payment_conserved_witness:
  "find (\<lambda>k. remote k = 2) (connections (heap controller 1)) =
     Some \<lparr>local = 1, remote = 2, delay = 2100\<rparr>
   \<and> resources (heap controller 1) = Num 100 \<and> resources (heap controller 2) = Num 100
   \<and> snd (callInitiatePayment controller 1 2 35) = Inr ()
   \<and> timers (fst (callInitiatePayment controller 1 2 35)) =
       [\<lparr>seq = 0, due = 2100, conn = \<lparr>local = 1, remote = 2, delay = 2100\<rparr>,
         msg = \<lparr>mtype = Resource, mvalue = 35\<rparr>\<rparr>]
   \<and> resources (heap (fst (callInitiatePayment controller 1 2 35)) 1) = Num 65
   \<and> resources (heap (deliver (fst (callInitiatePayment controller 1 2 35))
        \<lparr>seq = 0, due = 2100, conn = \<lparr>local = 1, remote = 2, delay = 2100\<rparr>,
         msg = \<lparr>mtype = Resource, mvalue = 35\<rparr>\<rparr>) 2) = Num 135
   \<and> resources (heap (deliver (fst (callInitiatePayment controller 1 2 35))
        \<lparr>seq = 0, due = 2100, conn = \<lparr>local = 1, remote = 2, delay = 2100\<rparr>,
         msg = \<lparr>mtype = Resource, mvalue = 35\<rparr>\<rparr>) 1) = Num 65"
proof -
  let ?k = "\<lparr>local = 1, remote = 2, delay = 2100\<rparr>"
  let ?c = "callInitiatePayment controller 1 2 35"
  let ?t = "\<lparr>seq = 0, due = 2100, conn = ?k, msg = \<lparr>mtype = Resource, mvalue = 35\<rparr>\<rparr>"
  have h1: "find (\<lambda>k. remote k = 2) (connections (heap controller 1)) = Some ?k"
    by (simp add: controller_j)
  have h2: "?c = (fst ?c, snd ?c)" by simp
  have h3: "?t = \<lparr>seq = nextSeq controller, due = clock controller + timeout (delay ?k),
      conn = ?k, msg = \<lparr>mtype = Resource, mvalue = 35\<rparr>\<rparr>"
    by (simp add: controller_queue timeout_def)
  have h4: "resources (heap controller 1) = Num 100"
    and h5: "resources (heap controller 2) = Num 100"
    by (simp_all add: controller_j controller_k)
  have h6: "\<bar>100 :: int\<bar> \<le> 2 ^ 53" and h7: "\<bar>100 - 35 :: int\<bar> \<le> 2 ^ 53"
    and h8: "\<bar>100 + 35 :: int\<bar> \<le> 2 ^ 53"
    by simp_all
  note th = payment_conserved [OF h1 h2 h3 h4 h5 h6 h7 h8]
  from th
  have c: "snd ?c = Inr ()" "timers (fst ?c) = timers controller @ [?t]"
    "resources (heap (fst ?c) 1) = Num (100 - 35)"
    by blast+
  have ne: "(1 :: nat) \<noteq> 2" by simp
  have same: "heap (fst ?c) 2 = heap controller 2"
    by (simp add: callInitiatePayment_def initiatePayment_def controller_j send_def Let_def)
  from th have "resources (heap (fst ?c) 2) = Num 100 \<and> \<bar>100 + 35 :: int\<bar> \<le> 2 ^ 53 \<longrightarrow>
      resources (heap (deliver (fst ?c) ?t) 2) = Num (100 + 35)"
    by blast
  then have d2: "resources (heap (deliver (fst ?c) ?t) 2) = Num 135"
    using same h5 by simp
  have d1: "resources (heap (deliver (fst ?c) ?t) 1) = Num 65"
    using c(3) deliver_resource [of "fst ?c" 0 2100 ?k 35] by simp
  have v: "timers controller = []"
    by (simp add: controller_queue)
  show ?thesis
    using h1 h4 h5 c d1 d2 v by simp
qed

text \<open>
  The claim as it stands fails where doubles are too coarse: peer \<open>0\<close> of the network
  \<open>edge\<close> holds \<open>- 2^53\<close> and pays 1 to peer \<open>1\<close>, which holds 100. The resources of
  \<open>0\<close> stay \<open>- 2^53\<close>, since \<open>- 2^53 - 1\<close> rounds back to it, while the delivery gives
  \<open>1\<close> its 101: the sum has grown by 1.
\<close>

theorem payment_conserved_counterexample:
  "find (\<lambda>k. remote k = 1) (connections (heap edge 0)) =
     Some \<lparr>local = 0, remote = 1, delay = 10\<rparr>
   \<and> resources (heap edge 0) = Num (- 9007199254740992)
   \<and> resources (heap edge 1) = Num 100
   \<and> snd (callInitiatePayment edge 0 1 1) = Inr ()
   \<and> timers (fst (callInitiatePayment edge 0 1 1)) =
       [\<lparr>seq = 0, due = 10, conn = \<lparr>local = 0, remote = 1, delay = 10\<rparr>,
         msg = \<lparr>mtype = Resource, mvalue = 1\<rparr>\<rparr>]
   \<and> resources (heap (fst (callInitiatePayment edge 0 1 1)) 0) = Num (- 9007199254740992)
   \<and> resources (heap (fst (callInitiatePayment edge 0 1 1)) 0) \<noteq> Num (- 9007199254740992 - 1)
   \<and> resources (heap (deliver (fst (callInitiatePayment edge 0 1 1))
        \<lparr>seq = 0, due = 10, conn = \<lparr>local = 0, remote = 1, delay = 10\<rparr>,
         msg = \<lparr>mtype = Resource, mvalue = 1\<rparr>\<rparr>) 0) = Num (- 9007199254740992)
   \<and> resources (heap (deliver (fst (callInitiatePayment edge 0 1 1))
        \<lparr>seq = 0, due = 10, conn = \<lparr>local = 0, remote = 1, delay = 10\<rparr>,
         msg = \<lparr>mtype = Resource, mvalue = 1\<rparr>\<rparr>) 1) = Num 101"
  by (simp add: edge_a edge_b edge_queue callInitiatePayment_def initiatePayment_def
      deliver_def handleMessage_def send_def remoteIndexOf_def timeout_def Let_def
      round_double_below round_double_exact)

subsection \<open>Delivery in the order of sending\<close>

lemma queue_inv_heap: "queue_inv (w\<lparr>heap := h\<rparr>) = queue_inv w"
  by (simp add: queue_inv_def)

lemma queue_inv_console: "queue_inv (w\<lparr>console := c\<rparr>) = queue_inv w"
  by (simp add: queue_inv_def)

lemma queue_inv_send: "queue_inv w \<Longrightarrow> queue_inv (send w k m)"
  unfolding queue_inv_def send_def
  by (auto simp: sorted_wrt_append less_Suc_eq)

lemma queue_inv_perform: "queue_inv w \<Longrightarrow> queue_inv (perform w effs)"
  by (induction w effs rule: perform.induct)
    (auto simp: queue_inv_send queue_inv_console)

lemma queue_inv_deliver: "queue_inv w \<Longrightarrow> queue_inv (deliver w t)"
  by (auto simp: deliver_def queue_inv_perform queue_inv_heap split: prod.splits)

lemma queue_inv_elapse: "queue_inv w \<Longrightarrow> queue_inv (w\<lparr>clock := clock w + int d\<rparr>)"
  unfolding queue_inv_def by (auto intro: order_trans)

lemma queue_inv_fire:
  assumes "queue_inv w"
  shows "queue_inv (fire w n)"
proof (cases "mayFire (timers w) n")
  case False
  then show ?thesis using assms by (simp add: fire_def)
next
  case True
  define u where "u = timers w ! n"
  define xs where "xs = take n (timers w)"
  define ys where "ys = drop (Suc n) (timers w)"
  have n: "n < length (timers w)" using True by (simp add: mayFire_def)
  have ts: "timers w = xs @ u # ys"
    unfolding u_def xs_def ys_def using n by (simp add: id_take_nth_drop [symmetric])
  have later: "\<forall>t \<in> set xs. duration t = duration u \<longrightarrow> due u < due t"
    using True unfolding mayFire_def u_def xs_def by (simp add: list_all_iff)
  let ?w = "w\<lparr>clock := max (clock w) (due u), timers := xs @ ys,
               delivered := delivered w @ [u]\<rparr>"
  have conn_xs: "\<forall>t \<in> set xs. conn t \<noteq> conn u"
  proof
    fix t assume t: "t \<in> set xs"
    have "conn t = conn u \<longrightarrow> due t \<le> due u"
      using assms t unfolding queue_inv_def ts by (auto simp: sorted_wrt_append)
    moreover have "conn t = conn u \<longrightarrow> due u < due t"
      using later t by (simp add: duration_def)
    ultimately show "conn t \<noteq> conn u" by fastforce
  qed
  have seq_ys: "\<forall>t \<in> set ys. seq u < seq t"
    using assms unfolding queue_inv_def ts by (auto simp: sorted_wrt_append)
  have "queue_inv ?w"
    using assms conn_xs seq_ys unfolding queue_inv_def
    unfolding ts
    by (auto simp: sorted_wrt_append intro: order_trans)
  then show ?thesis using True
    by (simp add: fire_def Let_def queue_inv_deliver u_def xs_def ys_def)
qed

lemma queue_inv_step:
  assumes "queue_inv w"
  shows "queue_inv (step w a)"
proof (cases a)
  case (Connect a b dab dba)
  then show ?thesis using assms by (simp add: connect_def Let_def queue_inv_heap)
next
  case (InitiateSnapshot a i)
  then show ?thesis using assms
    by (simp add: callInitiateSnapshot_def queue_inv_perform queue_inv_heap split: prod.splits)
next
  case (InitiatePayment a b amt)
  then show ?thesis using assms
    by (auto simp: callInitiatePayment_def queue_inv_perform queue_inv_heap
        split: prod.splits sum.splits)
next
  case (Elapse d)
  then show ?thesis using assms by (simp add: queue_inv_elapse)
next
  case (Fire n)
  then show ?thesis using assms by (simp add: queue_inv_fire)
qed

lemma queue_inv_run: "queue_inv w \<Longrightarrow> queue_inv (run w acts)"
  unfolding run_def by (induction acts arbitrary: w) (auto simp: queue_inv_step)

lemma two_in_list:
  assumes "x \<in> set l" "y \<in> set l" "x \<noteq> y"
  shows "(\<exists>xs ys zs. l = xs @ x # ys @ y # zs) \<or> (\<exists>xs ys zs. l = xs @ y # ys @ x # zs)"
proof -
  from split_list [OF assms(1)] obtain as bs where l: "l = as @ x # bs" by blast
  then have "y \<in> set as \<or> y \<in> set bs" using assms(2,3) by auto
  then show ?thesis
  proof
    assume "y \<in> set as"
    from split_list [OF this] obtain cs ds where "as = cs @ y # ds" by blast
    then have "l = cs @ y # ds @ x # bs" using l by simp
    then show ?thesis by blast
  next
    assume "y \<in> set bs"
    from split_list [OF this] obtain cs ds where "bs = cs @ y # ds" by blast
    then have "l = as @ x # cs @ y # ds" using l by simp
    then show ?thesis by blast
  qed
qed

text \<open>
  Claim C9. A run starts with an empty timer queue. Of two messages sent on the same
  connection, the one sent first (its timer \<open>t1\<close> has the smaller number) is delivered
  first: when \<open>t2\<close> has been delivered, \<open>t1\<close> has been delivered before it.
\<close>

theorem channel_fifo:
  assumes "timers w0 = []" and "delivered w0 = []"
    and "w = run w0 acts"
    and "t1 \<in> set (timers w) \<union> set (delivered w)" and "t2 \<in> set (delivered w)"
    and "conn t1 = conn t2" and "seq t1 < seq t2"
  shows "\<exists>xs ys zs. delivered w = xs @ t1 # ys @ t2 # zs"
proof -
  have "queue_inv w0" using assms(1,2) by (simp add: queue_inv_def)
  then have inv: "queue_inv w" unfolding assms(3) by (rule queue_inv_run)
  have "t1 \<notin> set (timers w)"
  proof
    assume "t1 \<in> set (timers w)"
    then have "seq t2 < seq t1" using inv assms(5,6) unfolding queue_inv_def by auto
    then show False using assms(7) by simp
  qed
  then have d1: "t1 \<in> set (delivered w)" using assms(4) by simp
  have ne: "t1 \<noteq> t2" using assms(7) by auto
  from two_in_list [OF d1 assms(5) ne] show ?thesis
  proof
    assume "\<exists>xs ys zs. delivered w = xs @ t2 # ys @ t1 # zs"
    then obtain xs ys zs where "delivered w = xs @ t2 # ys @ t1 # zs" by blast
    then have "seq t2 < seq t1"
      using inv assms(6) unfolding queue_inv_def by (auto simp: sorted_wrt_append)
    then show ?thesis using assms(7) by simp
  qed
qed

lemma two_payments_run:
  "delivered (run controller two_payments) =
     [\<lparr>seq = 0, due = 2100, conn = \<lparr>local = 1, remote = 2, delay = 2100\<rparr>,
        msg = \<lparr>mtype = Resource, mvalue = 35\<rparr>\<rparr>,
      \<lparr>seq = 1, due = 2100, conn = \<lparr>local = 1, remote = 2, delay = 2100\<rparr>,
        msg = \<lparr>mtype = Resource, mvalue = 7\<rparr>\<rparr>]
   \<and> timers (run controller two_payments) = []
   \<and> resources (heap (run controller two_payments) 2) = Num 142
   \<and> resources (heap (run controller two_payments) 1) = Num 58"
  by (simp add: two_payments_def run_def callInitiatePayment_def initiatePayment_def fire_def
      mayFire_def duration_def deliver_def handleMessage_def send_def Let_def controller_j
      controller_k controller_queue remoteIndexOf_def timeout_def round_double_exact)

theorem channel_fifo_witness:
  "timers controller = [] \<and> delivered controller = []
   \<and> \<lparr>seq = 0, due = 2100, conn = \<lparr>local = 1, remote = 2, delay = 2100\<rparr>,
        msg = \<lparr>mtype = Resource, mvalue = 35\<rparr>\<rparr>
       \<in> set (timers (run controller two_payments)) \<union> set (delivered (run controller two_payments))
   \<and> \<lparr>seq = 1, due = 2100, conn = \<lparr>local = 1, remote = 2, delay = 2100\<rparr>,
        msg = \<lparr>mtype = Resource, mvalue = 7\<rparr>\<rparr>
       \<in> set (delivered (run controller two_payments))
   \<and> (\<exists>xs ys zs. delivered (run controller two_payments) =
        xs @ \<lparr>seq = 0, due = 2100, conn = \<lparr>local = 1, remote = 2, delay = 2100\<rparr>,
                msg = \<lparr>mtype = Resource, mvalue = 35\<rparr>\<rparr>
           # ys @ \<lparr>seq = 1, due = 2100, conn = \<lparr>local = 1, remote = 2, delay = 2100\<rparr>,
                   msg = \<lparr>mtype = Resource, mvalue = 7\<rparr>\<rparr> # zs)"
proof -
  let ?t1 = "\<lparr>seq = 0, due = 2100, conn = \<lparr>local = 1, remote = 2, delay = 2100\<rparr>,
        msg = \<lparr>mtype = Resource, mvalue = 35\<rparr>\<rparr>"
  let ?t2 = "\<lparr>seq = 1, due = 2100, conn = \<lparr>local = 1, remote = 2, delay = 2100\<rparr>,
        msg = \<lparr>mtype = Resource, mvalue = 7\<rparr>\<rparr>"
  let ?w = "run controller two_payments"
  have h1: "timers controller = []" and h2: "delivered controller = []"
    by (simp_all add: controller_queue)
  have h3: "?w = run controller two_payments" by simp
  have h4: "?t1 \<in> set (timers ?w) \<union> set (delivered ?w)"
    by (simp add: two_payments_run)
  have h5: "?t2 \<in> set (delivered ?w)"
    by (simp add: two_payments_run)
  have h6: "conn ?t1 = conn ?t2" by simp
  have h7: "seq ?t1 < seq ?t2" by simp
  show ?thesis
    using h1 h2 h4 h5 channel_fifo [OF h1 h2 h3 h4 h5 h6 h7] by simp
qed

end
